theory Spec2Isabelle
  imports Main "HOL-Library.Word"
begin

unbundle bit_operations_syntax

section \<open>Byte order: encoding/binary.LittleEndian\<close>

type_synonym byte = "8 word"

text \<open>
  \<^verbatim>\<open>binary.LittleEndian.Uint16/Uint32/Uint64\<close> read the first 2, 4 or 8 bytes of a slice,
  least significant byte first. The index check of the Go functions (a slice that is too
  short panics) is written out where they are called, see \<open>LittleEndian_Uint32\<close> below.
\<close>

definition Uint16 :: "byte list \<Rightarrow> 16 word" where
  "Uint16 b = ucast (b ! 0) OR push_bit 8 (ucast (b ! 1))"

definition Uint32 :: "byte list \<Rightarrow> 32 word" where
  "Uint32 b = ucast (b ! 0) OR push_bit 8 (ucast (b ! 1)) OR push_bit 16 (ucast (b ! 2))
     OR push_bit 24 (ucast (b ! 3))"

definition Uint64 :: "byte list \<Rightarrow> 64 word" where
  "Uint64 b = ucast (b ! 0) OR push_bit 8 (ucast (b ! 1)) OR push_bit 16 (ucast (b ! 2))
     OR push_bit 24 (ucast (b ! 3)) OR push_bit 32 (ucast (b ! 4)) OR push_bit 40 (ucast (b ! 5))
     OR push_bit 48 (ucast (b ! 6)) OR push_bit 56 (ucast (b ! 7))"

text \<open>\<^verbatim>\<open>binary.LittleEndian.PutUint16/PutUint32/PutUint64\<close>: the bytes written.\<close>

definition PutUint16 :: "16 word \<Rightarrow> byte list" where
  "PutUint16 v = [ucast v, ucast (drop_bit 8 v)]"

definition PutUint32 :: "32 word \<Rightarrow> byte list" where
  "PutUint32 v = [ucast v, ucast (drop_bit 8 v), ucast (drop_bit 16 v), ucast (drop_bit 24 v)]"

definition PutUint64 :: "64 word \<Rightarrow> byte list" where
  "PutUint64 v = [ucast v, ucast (drop_bit 8 v), ucast (drop_bit 16 v), ucast (drop_bit 24 v),
     ucast (drop_bit 32 v), ucast (drop_bit 40 v), ucast (drop_bit 48 v), ucast (drop_bit 56 v)]"

section \<open>The event record\<close>

text \<open>
  \<^verbatim>\<open>type Event struct { TsUs uint64; Pid uint32; Af uint16; Task [16]byte }\<close> and
  \<^verbatim>\<open>type IP4Event struct { Event; Daddr uint32; Dport uint16 }\<close>. The embedded struct is
  the parent record. The array \<open>Task\<close> is a byte list; a Go value always has 16 of them.
\<close>

record Event =
  TsUs :: "64 word"
  Pid :: "32 word"
  Af :: "16 word"
  Task :: "byte list"

record IP4Event = Event +
  Daddr :: "32 word"
  Dport :: "16 word"

definition IP4Event_size :: nat where
  "IP4Event_size = 8 + 4 + 2 + 16 + 4 + 2"

datatype read_error = EOF | ErrUnexpectedEOF

text \<open>
  \<^verbatim>\<open>binary.Read(bytes.NewBuffer(record.RawSample), binary.LittleEndian, &event)\<close>:
  \<open>binary.Read\<close> asks the reader for exactly \<open>binary.Size(event)\<close> bytes with
  \<open>io.ReadFull\<close>. A buffer with nothing in it gives \<open>io.EOF\<close>, one that ends early gives
  \<open>io.ErrUnexpectedEOF\<close>; otherwise the fields are read in declaration order from the
  first 36 bytes, and whatever follows them in the buffer is left unread.
\<close>

definition binary_Read :: "byte list \<Rightarrow> read_error + IP4Event" where
  "binary_Read raw =
     (if length raw < IP4Event_size
      then Inl (if raw = [] then EOF else ErrUnexpectedEOF)
      else Inr \<lparr> TsUs = Uint64 (take 8 raw),
                 Pid = Uint32 (take 4 (drop 8 raw)),
                 Af = Uint16 (take 2 (drop 12 raw)),
                 Task = take 16 (drop 14 raw),
                 Daddr = Uint32 (take 4 (drop 30 raw)),
                 Dport = Uint16 (take 2 (drop 34 raw)) \<rparr>)"

text \<open>
  The producer's side of the record, following the layout table of the specification
  (section 6): timestamp, pid, address family, task name, destination address,
  destination port, little-endian, no padding. The sources hold no encoder.
\<close>

definition spec_encode_IP4Event :: "IP4Event \<Rightarrow> byte list" where
  "spec_encode_IP4Event e =
     PutUint64 (TsUs e) @ PutUint32 (Pid e) @ PutUint16 (Af e) @ Task e
       @ PutUint32 (Daddr e) @ PutUint16 (Dport e)"

section \<open>The kernel maps: ebpf.Map.Put\<close>

text \<open>
  The allow map and the mode map are kernel hash maps with 4-byte keys and 4-byte values
  (specification, section 6). A key is identified with the \<open>uint32\<close> its four bytes form
  in the byte order of the object file (\<open>bpf_bpfel\<close>: little-endian), which is also the
  order in which the library writes a Go \<open>uint32\<close>.

  \<open>Map.Put\<close> is \<open>Update\<close> with \<open>UpdateAny\<close>. The library first marshals the key to the
  map's key size: a \<open>uint32\<close> gives its four bytes, a \<open>net.IP\<close> (a byte slice) gives its
  own bytes and is refused unless there are exactly four. The kernel then creates or
  overwrites the entry; a new key is refused once the map holds \<open>max_entries\<close> keys.
  The map declarations are in the BPF object, which is not part of these sources, so
  \<open>max_entries\<close> is a parameter.
\<close>

type_synonym bpf_map = "32 word \<rightharpoonup> 32 word"

datatype go_key = KeyUint32 "32 word" | KeyIP "byte list"

datatype put_error = ErrKeySize | ErrMapFull

definition marshalKey :: "go_key \<Rightarrow> put_error + 32 word" where
  "marshalKey k =
     (case k of
        KeyUint32 w \<Rightarrow> Inr w
      | KeyIP bs \<Rightarrow> if length bs = 4 then Inr (Uint32 bs) else Inl ErrKeySize)"

definition Map_Put :: "nat \<Rightarrow> bpf_map \<Rightarrow> go_key \<Rightarrow> 32 word \<Rightarrow> put_error + bpf_map" where
  "Map_Put max_entries m k v =
     (case marshalKey k of
        Inl e \<Rightarrow> Inl e
      | Inr kk \<Rightarrow>
          if m kk \<noteq> None \<or> card (dom m) < max_entries
          then Inr (m(kk \<mapsto> v))
          else Inl ErrMapFull)"

section \<open>How a run can stop\<close>

text \<open>
  \<open>logger.Log.Fatalf\<close> logs and ends the process with \<open>os.Exit(1)\<close>: deferred calls do
  not run. A runtime panic (an index out of range, a nil pointer) unwinds through the
  deferred calls and then ends the process.
\<close>

datatype stop = FatalExit | GoPanic

section \<open>Seeding the allow map\<close>

text \<open>
  \<open>binary.LittleEndian.Uint32(h)\<close> on a \<open>net.IP\<close>: the function reads \<open>h[0..3]\<close> and
  panics when the slice has fewer than four bytes (a nil slice has none).
\<close>

definition LittleEndian_Uint32 :: "byte list \<Rightarrow> 32 word option" where
  "LittleEndian_Uint32 h = (if length h < 4 then None else Some (Uint32 h))"

text \<open>
  The seeding loop of \<open>Run\<close>:
  \<^verbatim>\<open>key := 1
  for _, h := range hosts {
      ipUint32 := binary.LittleEndian.Uint32(h)
      if err := allowMap.Put(ipUint32, uint32(key)); err != nil { logger.Log.Fatalf(...) }
  }\<close>
\<close>

fun seed_allow :: "nat \<Rightarrow> byte list list \<Rightarrow> bpf_map \<Rightarrow> stop + bpf_map" where
  "seed_allow cap [] m = Inr m"
| "seed_allow cap (h # hs) m =
     (case LittleEndian_Uint32 h of
        None \<Rightarrow> Inl GoPanic
      | Some ipUint32 \<Rightarrow>
          (case Map_Put cap m (KeyUint32 ipUint32) 1 of
             Inl e \<Rightarrow> Inl FatalExit
           | Inr m' \<Rightarrow> seed_allow cap hs m'))"

section \<open>What a run does, as a trace\<close>

datatype ProgramType = Kprobe | Tracing | TracePoint | CGroupSKB | OtherType

record ProgramSpec =
  ProgName :: string
  ProgType :: ProgramType
  AttachTo :: string

datatype log_entry =
    Log_read_error
  | Log_parse_error read_error
  | Log_add "byte list"
  | Log_event "32 word" "byte list" "byte list" "string list" "16 word"
  | Log_warn_unrecognized string
  | Log_no_hosts

datatype action =
    Call_NewReporter
  | Call_IsRoot
  | Call_RemoveMemlock
  | Call_LoadCollectionSpec
  | Call_NewCollection
  | Call_ParseHosts
  | Call_ebpfman_Load
  | Link ProgramType string
  | Open_rootCgroup
  | Call_NewReader string
  | Call_Read
  | Log log_entry
  | Wait_done
  | Report_Print
  | Report_Clean
  | Close_link string
  | Close_cgroup
  | Close_reader string
  | Call_clean
  | Collection_Close

datatype deferred_call =
    Defer_clean
  | Defer_ebpfman_Clean
  | Defer_Close_link string
  | Defer_Close_cgroup
  | Defer_Close_reader string

datatype error =
    ErrNotRoot
  | ErrRemoveMemlock
  | ErrLink string
  | ErrOpenCgroup
  | ErrModeRequired
  | ErrModeInvalid string
  | ErrParseHosts
  | ErrInvalidMode string

text \<open>
  The state a run threads through: \<open>Collection\<close> and \<open>Spec\<close> are the two pointers of
  \<^verbatim>\<open>type ebpfProgram struct\<close> (\<open>None\<close> is nil; a loaded collection is known here by the
  programs it declares), \<open>deferred\<close> the stack of deferred calls (the last one deferred
  first), \<open>trace\<close> the calls made so far, in order, and the two kernel maps.
\<close>

record run_state =
  Collection :: "ProgramSpec list option"
  Spec :: "ProgramSpec list option"
  deferred :: "deferred_call list"
  trace :: "action list"
  mode_map :: bpf_map
  allow_map :: bpf_map

definition init_state :: run_state where
  "init_state = \<lparr> Collection = None, Spec = None, deferred = [], trace = [],
                   mode_map = Map.empty, allow_map = Map.empty \<rparr>"

definition act :: "action \<Rightarrow> run_state \<Rightarrow> run_state" where
  "act a st = st\<lparr> trace := trace st @ [a] \<rparr>"

definition defer_call :: "deferred_call \<Rightarrow> run_state \<Rightarrow> run_state" where
  "defer_call d st = st\<lparr> deferred := d # deferred st \<rparr>"

text \<open>
  Everything outside the sources that a run depends on: the operating system's answers,
  the program image, the sizes of the two maps, the resolver, and the parts of this
  repository that are not among the sources and are taken as parameters:
  \<open>utils.IntToIP\<close> (it turns the event's \<open>uint32\<close> address into a \<open>net.IP\<close>),
  \<open>utils.ParseHosts\<close> (\<open>None\<close> is its error), the constants of package \<open>domain\<close> and
  the \<open>Err\<close> field of a new reporter.
\<close>

record env =
  IsRoot :: bool
  RemoveMemlock_fails :: bool
  LoadCollectionSpec :: "ProgramSpec list option"
  NewCollection_fails :: bool
  link_fails :: "string \<Rightarrow> bool"
  Open_fails :: bool
  mode_max_entries :: nat
  allow_max_entries :: nat
  NewReader_fails :: "string \<Rightarrow> bool"
  IntToIP :: "32 word \<Rightarrow> byte list"
  LookupAddr :: "byte list \<Rightarrow> string list \<times> bool"
  TracerModeMonitor :: string
  TracerModeTrace :: string
  TracerModeIndexMonitor :: "32 word"
  TracerModeIndexTrace :: "32 word"
  ParseHosts :: "string \<Rightarrow> byte list list option"
  NewReporter_Err :: bool

section \<open>The suffix match\<close>

text \<open>\<open>strings.Contains(s, substr)\<close>: \<open>substr\<close> occurs in \<open>s\<close> at some position.\<close>

fun Contains :: "string \<Rightarrow> string \<Rightarrow> bool" where
  "Contains [] substr = (substr = [])"
| "Contains (c # s) substr = (take (length substr) (c # s) = substr \<or> Contains s substr)"

text \<open>
  The inner loop, for one index \<open>i\<close> of the outer loop:
  \<^verbatim>\<open>for v := 0; v < len(domain); v++ {
      if strings.Contains(domain[v], allowedHosts[i]) {
          ipUint32 := utils.IntToIP(event.Daddr)
          if err := allowMap.Put(ipUint32, uint32(1)); err != nil { logger.Log.Fatalf(...) }
          logger.Log.Infof("add ---->%d", ipUint32)
      }
  }\<close>
  The suffix list is indexed on every pass, so an index outside the list panics at the
  first name, and does nothing when there is no name.
\<close>

fun match_names ::
  "env \<Rightarrow> string list \<Rightarrow> nat \<Rightarrow> 32 word \<Rightarrow> string list \<Rightarrow> run_state \<Rightarrow> stop + run_state" where
  "match_names E suffixes i daddr [] st = Inr st"
| "match_names E suffixes i daddr (name # names) st =
     (if i \<ge> length suffixes then Inl GoPanic
      else if Contains name (suffixes ! i)
      then (case Map_Put (allow_max_entries E) (allow_map st) (KeyIP (IntToIP E daddr)) 1 of
              Inl e \<Rightarrow> Inl FatalExit
            | Inr m \<Rightarrow>
                match_names E suffixes i daddr names
                  (act (Log (Log_add (IntToIP E daddr))) (st\<lparr> allow_map := m \<rparr>)))
      else match_names E suffixes i daddr names st)"

text \<open>
  The outer loop \<^verbatim>\<open>for i := 0; i < n; i++\<close>, over the indices still to visit. Its bound
  \<open>n\<close> is what the two entry points differ in (see \<open>Run\<close> and \<open>tracer_Run\<close>).
\<close>

fun match_hosts ::
  "env \<Rightarrow> string list \<Rightarrow> nat list \<Rightarrow> 32 word \<Rightarrow> string list \<Rightarrow> run_state \<Rightarrow> stop + run_state" where
  "match_hosts E suffixes [] daddr names st = Inr st"
| "match_hosts E suffixes (i # is) daddr names st =
     (case match_names E suffixes i daddr names st of
        Inl s \<Rightarrow> Inl s
      | Inr st' \<Rightarrow> match_hosts E suffixes is daddr names st')"

definition allowedHosts :: "string list" where
  "allowedHosts = [''.github.com'', ''.kondukto.io'']"

section \<open>The event loop\<close>

text \<open>
  What one \<open>rd.Read()\<close> gives: a record with its raw sample, the error \<open>perf.ErrClosed\<close>,
  or another error. With an error the record returned is the zero record, whose raw
  sample is nil.
\<close>

datatype read_result = Record "byte list" | ErrClosed | ReadError

text \<open>
  The body of the loop from \<open>binary.Read\<close> on: a record that does not decode is logged
  and skipped; otherwise the destination is resolved (a failed lookup appends the name
  \<open>"."\<close>), the suffixes are matched with the loop bound \<open>n\<close>, and the event is logged.
  \<open>LookupAddr\<close> of the environment stands for \<open>net.LookupAddr(daddr.String())\<close>.
\<close>

definition handle_sample :: "env \<Rightarrow> nat \<Rightarrow> byte list \<Rightarrow> run_state \<Rightarrow> stop + run_state" where
  "handle_sample E n raw st =
     (case binary_Read raw of
        Inl err \<Rightarrow> Inr (act (Log (Log_parse_error err)) st)
      | Inr event \<Rightarrow>
          (let daddr = IntToIP E (Daddr event);
               (names, err) = LookupAddr E daddr;
               domain = (if err then names @ [''.''] else names)
           in case match_hosts E allowedHosts [0..<n] (Daddr event) domain st of
                Inl s \<Rightarrow> Inl s
              | Inr st' \<Rightarrow>
                  Inr (act (Log (Log_event (Pid event) (Task event) daddr domain (Dport event)))
                        st')))"

text \<open>
  How the loop ends: at the label \<open>EXIT\<close>, by a fatal exit or a panic, or not at all
  (the reads given are used up and the next one blocks).
\<close>

datatype loop_end = At_EXIT run_state | Stopped stop run_state | Blocked run_state

text \<open>
  \<^verbatim>\<open>for {
      record, err := rd.Read()
      if err != nil {
          if errors.Is(err, perf.ErrClosed) { goto EXIT }
          logger.Log.Errorf("readig from perf event reader: %s", err)
      }
      if err := binary.Read(...); err != nil { logger.Log.Printf(...); continue }
      ...
  }\<close>
  After another read error the body goes on with the zero record.
\<close>

fun event_loop :: "env \<Rightarrow> nat \<Rightarrow> read_result list \<Rightarrow> run_state \<Rightarrow> loop_end" where
  "event_loop E n [] st = Blocked st"
| "event_loop E n (ErrClosed # rs) st = At_EXIT (act Call_Read st)"
| "event_loop E n (ReadError # rs) st =
     (case handle_sample E n [] (act (Log Log_read_error) (act Call_Read st)) of
        Inl s \<Rightarrow> Stopped s (act (Log Log_read_error) (act Call_Read st))
      | Inr st' \<Rightarrow> event_loop E n rs st')"
| "event_loop E n (Record raw # rs) st =
     (case handle_sample E n raw (act Call_Read st) of
        Inl s \<Rightarrow> Stopped s (act Call_Read st)
      | Inr st' \<Rightarrow> event_loop E n rs st')"

text \<open>The state the loop has reached when it ends or waits.\<close>

fun state_of :: "loop_end \<Rightarrow> run_state" where
  "state_of (At_EXIT st) = st"
| "state_of (Stopped s st) = st"
| "state_of (Blocked st) = st"

section \<open>Run\<close>

text \<open>
  How a run ends: \<open>Run\<close> returns (nil or an error), the process exits from
  \<open>Fatalf\<close>, it panics, or the loop is still waiting for a read.
\<close>

datatype run_end = Returns "error option" | Exits | Panics | Blocks

type_synonym step = "(run_end \<times> run_state) + run_state"

text \<open>A statement that returns, exits or panics ends the sequence; otherwise the next one runs.\<close>

definition thenStep :: "step \<Rightarrow> (run_state \<Rightarrow> step) \<Rightarrow> step" where
  "thenStep r f = (case r of Inl e \<Rightarrow> Inl e | Inr st \<Rightarrow> f st)"

definition andThen :: "step \<Rightarrow> (run_state \<Rightarrow> run_end \<times> run_state) \<Rightarrow> run_end \<times> run_state" where
  "andThen r f = (case r of Inl e \<Rightarrow> e | Inr st \<Rightarrow> f st)"

text \<open>
  The deferred calls, run when \<open>Run\<close> returns or panics, last deferred first.
  \<^verbatim>\<open>func (e *ebpfProgram) clean() { e.Collection.Close() }\<close>: \<open>Collection.Close\<close> ranges
  over the fields of the collection it points to, so a nil \<open>e.Collection\<close> is a nil
  pointer dereference. A panic in a deferred call leaves the other deferred calls to
  run and ends the process.

  Modelled from the spec: \<open>Clean\<close> of package \<open>pkg/ebpf\<close> (deferred by \<open>tracer_Run\<close>) is not
  among the sources; by section 4.1 it releases the instantiated collection and is safe
  to call even if \<open>Load\<close> partially failed.
\<close>

fun run_deferred :: "deferred_call list \<Rightarrow> run_end \<Rightarrow> run_state \<Rightarrow> run_end \<times> run_state" where
  "run_deferred [] r st = (r, st\<lparr> deferred := [] \<rparr>)"
| "run_deferred (Defer_clean # ds) r st =
     (case Collection st of
        None \<Rightarrow> run_deferred ds Panics (act Call_clean st)
      | Some c \<Rightarrow> run_deferred ds r (act Collection_Close (act Call_clean st)))"
| "run_deferred (Defer_ebpfman_Clean # ds) r st =
     (case Collection st of
        None \<Rightarrow> run_deferred ds r (act Call_clean st)
      | Some c \<Rightarrow> run_deferred ds r (act Collection_Close (act Call_clean st)))"
| "run_deferred (Defer_Close_link name # ds) r st = run_deferred ds r (act (Close_link name) st)"
| "run_deferred (Defer_Close_cgroup # ds) r st = run_deferred ds r (act Close_cgroup st)"
| "run_deferred (Defer_Close_reader name # ds) r st = run_deferred ds r (act (Close_reader name) st)"

definition return_from :: "run_end \<times> run_state \<Rightarrow> run_end \<times> run_state" where
  "return_from r =
     (case r of
        (Returns e, st) \<Rightarrow> run_deferred (deferred st) (Returns e) st
      | (Panics, st) \<Rightarrow> run_deferred (deferred st) Panics st
      | (Exits, st) \<Rightarrow> (Exits, st)
      | (Blocks, st) \<Rightarrow> (Blocks, st))"

text \<open>\<^verbatim>\<open>if !utils.IsRoot() { return errors.New("you need root privileges ...") }\<close>\<close>

definition check_root :: "env \<Rightarrow> run_state \<Rightarrow> step" where
  "check_root E st =
     (if \<not> IsRoot E then Inl (Returns (Some ErrNotRoot), act Call_IsRoot st)
      else Inr (act Call_IsRoot st))"

text \<open>\<^verbatim>\<open>if err := rlimit.RemoveMemlock(); err != nil { return err }\<close>\<close>

definition remove_memlock :: "env \<Rightarrow> run_state \<Rightarrow> step" where
  "remove_memlock E st =
     (if RemoveMemlock_fails E then Inl (Returns (Some ErrRemoveMemlock), act Call_RemoveMemlock st)
      else Inr (act Call_RemoveMemlock st))"

text \<open>
  \<^verbatim>\<open>func (e *ebpfProgram) load() error\<close>: both failures go through \<open>Fatalf\<close>, so the
  \<open>return err\<close> after each is never reached.
\<close>

definition load :: "env \<Rightarrow> run_state \<Rightarrow> step" where
  "load E st =
     (case LoadCollectionSpec E of
        None \<Rightarrow> Inl (Exits, act Call_LoadCollectionSpec st)
      | Some spec \<Rightarrow>
          if NewCollection_fails E
          then Inl (Exits, act Call_NewCollection
                      (act Call_LoadCollectionSpec (st\<lparr> Spec := Some spec \<rparr>)))
          else Inr (act Call_NewCollection
                      (act Call_LoadCollectionSpec
                         (st\<lparr> Spec := Some spec, Collection := Some spec \<rparr>))))"

text \<open>
  Modelled from the spec: \<open>Load\<close> of package \<open>pkg/ebpf\<close> is not among the sources; by
  section 4.1 it reads the program image and instantiates it, or fails. \<open>tracer_Run\<close>
  answers its error with \<open>Fatalf\<close>.
\<close>

definition ebpfman_Load :: "env \<Rightarrow> run_state \<Rightarrow> step" where
  "ebpfman_Load E st =
     (case LoadCollectionSpec E of
        None \<Rightarrow> Inl (Exits, act Call_ebpfman_Load st)
      | Some spec \<Rightarrow>
          if NewCollection_fails E
          then Inl (Exits, act Call_ebpfman_Load st)
          else Inr (act Call_ebpfman_Load (st\<lparr> Spec := Some spec, Collection := Some spec \<rparr>)))"

text \<open>
  The loop \<^verbatim>\<open>for name, spec := range e.Spec.Programs { switch spec.Type { ... } }\<close>, over
  the programs in the order the range visits them. A probe, a tracing program and a
  tracepoint are linked and the link's \<open>Close\<close> is deferred; the cgroup program opens the
  root cgroup first and defers both \<open>Close\<close> calls once the link is made; any other type
  is a warning.
\<close>

fun link_programs :: "env \<Rightarrow> ProgramSpec list \<Rightarrow> run_state \<Rightarrow> step" where
  "link_programs E [] st = Inr st"
| "link_programs E (p # ps) st =
     (case ProgType p of
        OtherType \<Rightarrow> link_programs E ps (act (Log (Log_warn_unrecognized (ProgName p))) st)
      | CGroupSKB \<Rightarrow>
          if Open_fails E then Inl (Returns (Some ErrOpenCgroup), act Open_rootCgroup st)
          else if link_fails E (ProgName p)
          then Inl (Returns (Some (ErrLink (ProgName p))),
                    act (Link CGroupSKB (ProgName p)) (act Open_rootCgroup st))
          else link_programs E ps
                 (defer_call Defer_Close_cgroup
                   (defer_call (Defer_Close_link (ProgName p))
                     (act (Link CGroupSKB (ProgName p)) (act Open_rootCgroup st))))
      | t \<Rightarrow>
          if link_fails E (ProgName p)
          then Inl (Returns (Some (ErrLink (ProgName p))), act (Link t (ProgName p)) st)
          else link_programs E ps
                 (defer_call (Defer_Close_link (ProgName p)) (act (Link t (ProgName p)) st)))"

definition link_all :: "env \<Rightarrow> run_state \<Rightarrow> step" where
  "link_all E st = link_programs E (case Spec st of None \<Rightarrow> [] | Some ps \<Rightarrow> ps) st"

text \<open>\<^verbatim>\<open>if err := modeMap.Put(uint32(0), uint32(mode)); err != nil { logger.Log.Fatalf(...) }\<close>\<close>

definition set_mode :: "env \<Rightarrow> 32 word \<Rightarrow> run_state \<Rightarrow> step" where
  "set_mode E mode st =
     (case Map_Put (mode_max_entries E) (mode_map st) (KeyUint32 0) mode of
        Inl e \<Rightarrow> Inl (Exits, st)
      | Inr m \<Rightarrow> Inr (st\<lparr> mode_map := m \<rparr>))"

definition seed :: "env \<Rightarrow> byte list list \<Rightarrow> run_state \<Rightarrow> step" where
  "seed E hosts st =
     (case seed_allow (allow_max_entries E) hosts (allow_map st) of
        Inl FatalExit \<Rightarrow> Inl (Exits, st)
      | Inl GoPanic \<Rightarrow> Inl (Panics, st)
      | Inr m \<Rightarrow> Inr (st\<lparr> allow_map := m \<rparr>))"

text \<open>
  \<^verbatim>\<open>rd, err := perf.NewReader(ipv4EventMap, 4096)
  if err != nil { logger.Log.Fatalf(...) }
  defer rd.Close()\<close>
\<close>

definition open_reader :: "env \<Rightarrow> string \<Rightarrow> run_state \<Rightarrow> step" where
  "open_reader E name st =
     (if NewReader_fails E name then Inl (Exits, act (Call_NewReader name) st)
      else Inr (defer_call (Defer_Close_reader name) (act (Call_NewReader name) st)))"

text \<open>
  The loop and what follows the label \<open>EXIT\<close>:
  \<^verbatim>\<open><-done; r.Print(); r.Clean(); return nil\<close>. The reader is closed by the signal handler
  only, after it has sent on \<open>done\<close>.
\<close>

definition main_loop :: "env \<Rightarrow> nat \<Rightarrow> read_result list \<Rightarrow> run_state \<Rightarrow> run_end \<times> run_state" where
  "main_loop E n reads st =
     (case event_loop E n reads st of
        At_EXIT st' \<Rightarrow> (Returns None, act Report_Clean (act Report_Print (act Wait_done st')))
      | Stopped FatalExit st' \<Rightarrow> (Exits, st')
      | Stopped GoPanic st' \<Rightarrow> (Panics, st')
      | Blocked st' \<Rightarrow> (Blocks, st'))"

text \<open>
  \<^verbatim>\<open>func Run(mode uint32, hosts []net.IP) error\<close> of package \<open>kntrl\<close>: \<open>Run_setup\<close> is the
  function up to the loop, statement by statement (\<open>var e ebpfProgram; defer e.clean();
  r := NewReporter()\<close> first), \<open>Run\<close> the whole of it. \<open>reads\<close> is what the reader gives,
  read after read. The outer loop of the suffix match is bounded by
  \<open>len(allowedHosts)\<close>, the length of the suffix list.
\<close>

definition Run_setup :: "env \<Rightarrow> 32 word \<Rightarrow> byte list list \<Rightarrow> step" where
  "Run_setup E mode hosts =
     thenStep (check_root E (act Call_NewReporter (defer_call Defer_clean init_state))) (\<lambda>st.
     thenStep (remove_memlock E st) (\<lambda>st.
     thenStep (load E st) (\<lambda>st.
     thenStep (link_all E st) (\<lambda>st.
     thenStep (set_mode E mode st) (\<lambda>st.
     thenStep (seed E hosts st) (\<lambda>st.
     thenStep (open_reader E ''ipv4_events'' st) (\<lambda>st.
     open_reader E ''ipv4_closed_events'' st)))))))"

definition Run :: "env \<Rightarrow> 32 word \<Rightarrow> byte list list \<Rightarrow> read_result list \<Rightarrow> run_end \<times> run_state" where
  "Run E mode hosts reads =
     return_from (andThen (Run_setup E mode hosts) (main_loop E (length allowedHosts) reads))"

section \<open>Run of package tracer\<close>

text \<open>
  \<^verbatim>\<open>var tracerMode = cmd.Flag("mode").Value.String()
  if tracerMode == "" { return errors.New("[mode] flag is required") }
  if tracerMode != domain.TracerModeMonitor && tracerMode != domain.TracerModeTrace {
      return fmt.Errorf("[mode] flag is invalid: %s", tracerMode)
  }\<close>
\<close>

definition check_mode :: "env \<Rightarrow> string \<Rightarrow> run_state \<Rightarrow> step" where
  "check_mode E tracerMode st =
     (if tracerMode = [] then Inl (Returns (Some ErrModeRequired), st)
      else if tracerMode \<noteq> TracerModeMonitor E \<and> tracerMode \<noteq> TracerModeTrace E
      then Inl (Returns (Some (ErrModeInvalid tracerMode)), st)
      else Inr st)"

text \<open>
  \<^verbatim>\<open>var allowedHosts = cmd.Flag("hosts").Value.String()
  if allowedHosts == "" { logger.Log.Debugf("no provided allowed hosts") }
  allowedIPS, err := utils.ParseHosts(allowedHosts)
  if err != nil { return fmt.Errorf("failed to parse allowed hosts: %s", err) }\<close>
  The parsed addresses are handed on with the state.
\<close>

definition parse_hosts :: "env \<Rightarrow> string \<Rightarrow> run_state \<Rightarrow> (run_end \<times> run_state) + byte list list \<times> run_state" where
  "parse_hosts E hosts_flag st =
     (let st1 = (if hosts_flag = [] then act (Log Log_no_hosts) st else st) in
      case ParseHosts E hosts_flag of
        None \<Rightarrow> Inl (Returns (Some ErrParseHosts), act Call_ParseHosts st1)
      | Some allowedIPS \<Rightarrow> Inr (allowedIPS, act Call_ParseHosts st1))"

text \<open>
  \<^verbatim>\<open>switch tracerMode {
  case domain.TracerModeTrace:   modeMap.Put(uint32(0), uint32(domain.TracerModeIndexTrace)) ...
  case domain.TracerModeMonitor: modeMap.Put(uint32(0), uint32(domain.TracerModeIndexMonitor)) ...
  default: return fmt.Errorf("invalid mode: %s", tracerMode)
  }\<close>
\<close>

definition switch_mode :: "env \<Rightarrow> string \<Rightarrow> run_state \<Rightarrow> step" where
  "switch_mode E tracerMode st =
     (if tracerMode = TracerModeTrace E then set_mode E (TracerModeIndexTrace E) st
      else if tracerMode = TracerModeMonitor E then set_mode E (TracerModeIndexMonitor E) st
      else Inl (Returns (Some (ErrInvalidMode tracerMode)), st))"

text \<open>\<^verbatim>\<open>r := reporter.NewReporter(); if r.Err != nil { logger.Log.Fatalf(...) }\<close>\<close>

definition new_reporter :: "env \<Rightarrow> run_state \<Rightarrow> step" where
  "new_reporter E st =
     (if NewReporter_Err E then Inl (Exits, act Call_NewReporter st)
      else Inr (act Call_NewReporter st))"

text \<open>
  \<^verbatim>\<open>func Run(cmd cobra.Command) error\<close> of package \<open>tracer\<close>, on the values of the flags
  \<open>mode\<close> and \<open>hosts\<close>. Here the image is loaded before \<open>rlimit.RemoveMemlock\<close> is called,
  \<open>Clean\<close> is deferred once \<open>Load\<close> has succeeded, and the outer loop of the suffix match
  is bounded by \<open>len(allowedHosts)\<close>, where \<open>allowedHosts\<close> is the string of the \<open>hosts\<close>
  flag, while the list indexed is \<open>allowedHostsAddress\<close>, the two suffixes.
\<close>

definition tracer_setup :: "env \<Rightarrow> string \<Rightarrow> string \<Rightarrow> step" where
  "tracer_setup E tracerMode hosts_flag =
     thenStep (check_mode E tracerMode init_state) (\<lambda>st.
     case parse_hosts E hosts_flag st of
       Inl e \<Rightarrow> Inl e
     | Inr (allowedIPS, st) \<Rightarrow>
     thenStep (check_root E st) (\<lambda>st.
     thenStep (ebpfman_Load E st) (\<lambda>st.
     thenStep (switch_mode E tracerMode (defer_call Defer_ebpfman_Clean st)) (\<lambda>st.
     thenStep (seed E allowedIPS st) (\<lambda>st.
     thenStep (open_reader E ''ipv4_events'' st) (\<lambda>st.
     thenStep (open_reader E ''ipv4_closed_events'' st) (\<lambda>st.
     thenStep (new_reporter E st) (\<lambda>st.
     thenStep (remove_memlock E st) (\<lambda>st.
     link_all E st)))))))))"

definition tracer_Run :: "env \<Rightarrow> string \<Rightarrow> string \<Rightarrow> read_result list \<Rightarrow> run_end \<times> run_state" where
  "tracer_Run E tracerMode hosts_flag reads =
     return_from
       (andThen (tracer_setup E tracerMode hosts_flag) (main_loop E (length hosts_flag) reads))"

section \<open>An example run\<close>

text \<open>
  A concrete environment for evaluating the model: the process is root, every call
  succeeds, the image declares one program of each kind the loop links and one it does
  not know, \<open>IntToIP\<close> writes the address least significant byte first, and the
  resolver knows one address, \<open>140.82.121.4\<close>, under a name of \<open>github.com\<close>.
\<close>

definition example_LookupAddr :: "byte list \<Rightarrow> string list \<times> bool" where
  "example_LookupAddr ip =
     (if ip = [140, 82, 121, 4] then ([''lb-140-82-121-4-fra.github.com.''], False)
      else ([], True))"

definition example_programs :: "ProgramSpec list" where
  "example_programs =
     [\<lparr> ProgName = ''tcp_v4_connect'', ProgType = Kprobe, AttachTo = ''tcp_v4_connect'' \<rparr>,
      \<lparr> ProgName = ''egress'', ProgType = CGroupSKB, AttachTo = [] \<rparr>,
      \<lparr> ProgName = ''xdp_pass'', ProgType = OtherType, AttachTo = [] \<rparr>]"

definition example_env :: env where
  "example_env =
     \<lparr> IsRoot = True, RemoveMemlock_fails = False,
       LoadCollectionSpec = Some example_programs, NewCollection_fails = False,
       link_fails = (\<lambda>name. False), Open_fails = False,
       mode_max_entries = 1, allow_max_entries = 256,
       NewReader_fails = (\<lambda>name. False),
       IntToIP = PutUint32, LookupAddr = example_LookupAddr,
       TracerModeMonitor = ''monitor'', TracerModeTrace = ''trace'',
       TracerModeIndexMonitor = 0, TracerModeIndexTrace = 1,
       ParseHosts = (\<lambda>hosts. Some [[127, 0, 0, 1]]), NewReporter_Err = False \<rparr>"

definition example_event :: IP4Event where
  "example_event =
     \<lparr> TsUs = 7, Pid = 4242, Af = 2, Task = replicate 16 0x61,
       Daddr = 0x0479528C, Dport = 443 \<rparr>"

section \<open>Little-endian round trips\<close>

lemma bit_byte_slice:
  fixes v :: "'a::len word"
  shows "bit (push_bit k (ucast (ucast (drop_bit k v) :: 8 word)) :: 'a word) n
         \<longleftrightarrow> k \<le> n \<and> n < k + 8 \<and> bit v n"
proof (cases "k \<le> n")
  case True
  then have "k + (n - k) = n" by simp
  then show ?thesis using True
    by (auto simp add: bit_simps dest: bit_imp_le_length)
next
  case False
  then show ?thesis by (simp add: bit_simps)
qed

lemma bit_byte_low:
  fixes v :: "'a::len word"
  shows "bit (ucast (ucast v :: 8 word) :: 'a word) n \<longleftrightarrow> n < 8 \<and> bit v n"
  by (auto simp add: bit_simps dest: bit_imp_le_length)

lemma Uint16_PutUint16: "Uint16 (PutUint16 v) = v"
proof (rule bit_word_eqI)
  fix n assume "n < LENGTH(16)"
  then have "n < 16" by simp
  then show "bit (Uint16 (PutUint16 v)) n = bit v n"
    unfolding Uint16_def PutUint16_def
    by (simp add: bit_or_iff bit_byte_slice bit_byte_low) arith
qed

lemma Uint32_PutUint32: "Uint32 (PutUint32 v) = v"
proof (rule bit_word_eqI)
  fix n assume "n < LENGTH(32)"
  then have "n < 32" by simp
  then show "bit (Uint32 (PutUint32 v)) n = bit v n"
    unfolding Uint32_def PutUint32_def
    by (simp add: bit_or_iff bit_byte_slice bit_byte_low) arith
qed

lemma Uint64_PutUint64: "Uint64 (PutUint64 v) = v"
proof (rule bit_word_eqI)
  fix n assume "n < LENGTH(64)"
  then have "n < 64" by simp
  then show "bit (Uint64 (PutUint64 v)) n = bit v n"
    unfolding Uint64_def PutUint64_def
    by (simp add: bit_or_iff bit_byte_slice bit_byte_low) arith
qed

lemma length_PutUint [simp]:
  "length (PutUint16 a) = 2" "length (PutUint32 b) = 4" "length (PutUint64 c) = 8"
  by (simp_all add: PutUint16_def PutUint32_def PutUint64_def)

lemma length_spec_encode:
  "length (spec_encode_IP4Event e) = 20 + length (Task e)"
  by (simp add: spec_encode_IP4Event_def)

section \<open>The map only grows\<close>

lemma Map_Put_Inr:
  "Map_Put cap m k v = Inr m' \<Longrightarrow> \<exists>kk. marshalKey k = Inr kk \<and> m' = m(kk \<mapsto> v)"
  by (auto simp: Map_Put_def split: sum.splits if_splits)

lemma Map_Put_dom_mono: "Map_Put cap m k v = Inr m' \<Longrightarrow> dom m \<subseteq> dom m'"
  by (auto dest!: Map_Put_Inr)

lemma Map_Put_present:
  "marshalKey k = Inr kk \<Longrightarrow> m kk \<noteq> None \<Longrightarrow> Map_Put cap m k v = Inr (m(kk \<mapsto> v))"
  by (simp add: Map_Put_def)

lemma Map_Put_room:
  "marshalKey k = Inr kk \<Longrightarrow> card (dom m) < cap \<Longrightarrow> Map_Put cap m k v = Inr (m(kk \<mapsto> v))"
  by (simp add: Map_Put_def)

lemma seed_allow_dom_mono: "seed_allow cap hs m = Inr m' \<Longrightarrow> dom m \<subseteq> dom m'"
proof (induction hs arbitrary: m)
  case Nil
  then show ?case by simp
next
  case (Cons h hs)
  from Cons.prems obtain k m1 where
    k: "LittleEndian_Uint32 h = Some k" and
    p: "Map_Put cap m (KeyUint32 k) 1 = Inr m1" and
    r: "seed_allow cap hs m1 = Inr m'"
    by (auto split: option.splits sum.splits)
  from Map_Put_dom_mono [OF p] Cons.IH [OF r] show ?case by blast
qed

lemma match_names_ok:
  assumes "i < length suffixes" "length (IntToIP E d) = 4"
    and "allow_map st (Uint32 (IntToIP E d)) \<noteq> None \<or> card (dom (allow_map st)) < allow_max_entries E"
  shows "\<exists>st'. match_names E suffixes i d names st = Inr st'
     \<and> ((\<exists>name \<in> set names. Contains name (suffixes ! i))
            \<longrightarrow> allow_map st' = (allow_map st)(Uint32 (IntToIP E d) \<mapsto> 1))
     \<and> (\<not> (\<exists>name \<in> set names. Contains name (suffixes ! i))
            \<longrightarrow> allow_map st' = allow_map st)"
  using assms
proof (induction names arbitrary: st)
  case Nil
  then show ?case by simp
next
  case (Cons name names)
  show ?case
  proof (cases "Contains name (suffixes ! i)")
    case False
    with Cons.IH [of st] Cons.prems show ?thesis by simp
  next
    case True
    let ?k = "Uint32 (IntToIP E d)"
    let ?m = "(allow_map st)(?k \<mapsto> 1)"
    let ?st1 = "act (Log (Log_add (IntToIP E d))) (st\<lparr> allow_map := ?m \<rparr>)"
    have put: "Map_Put (allow_max_entries E) (allow_map st) (KeyIP (IntToIP E d)) 1 = Inr ?m"
      using Cons.prems by (simp add: Map_Put_def marshalKey_def)
    have am: "allow_map ?st1 = ?m" by (simp add: act_def)
    then have "allow_map ?st1 ?k \<noteq> None" by simp
    with Cons.IH [of ?st1] Cons.prems(1,2) obtain st' where
      run: "match_names E suffixes i d names ?st1 = Inr st'" and
      hit: "(\<exists>name \<in> set names. Contains name (suffixes ! i))
             \<longrightarrow> allow_map st' = (allow_map ?st1)(?k \<mapsto> 1)" and
      miss: "\<not> (\<exists>name \<in> set names. Contains name (suffixes ! i))
             \<longrightarrow> allow_map st' = allow_map ?st1"
      by blast
    from hit miss am have res: "allow_map st' = ?m"
      by (cases "\<exists>name \<in> set names. Contains name (suffixes ! i)") simp_all
    have whole: "match_names E suffixes i d (name # names) st = Inr st'"
      using run put True Cons.prems(1) by simp
    show ?thesis
    proof (intro exI conjI impI)
      show "match_names E suffixes i d (name # names) st = Inr st'" by (fact whole)
      show "allow_map st' = ?m" by (fact res)
      show "allow_map st' = allow_map st"
        if "\<not> (\<exists>x \<in> set (name # names). Contains x (suffixes ! i))"
        using that True by simp
    qed
  qed
qed

lemma match_hosts_ok:
  assumes "\<forall>i \<in> set is. i < length suffixes" "length (IntToIP E d) = 4"
    and "allow_map st (Uint32 (IntToIP E d)) \<noteq> None \<or> card (dom (allow_map st)) < allow_max_entries E"
  shows "\<exists>st'. match_hosts E suffixes is d names st = Inr st'
     \<and> ((\<exists>i \<in> set is. \<exists>name \<in> set names. Contains name (suffixes ! i))
            \<longrightarrow> allow_map st' = (allow_map st)(Uint32 (IntToIP E d) \<mapsto> 1))
     \<and> (\<not> (\<exists>i \<in> set is. \<exists>name \<in> set names. Contains name (suffixes ! i))
            \<longrightarrow> allow_map st' = allow_map st)"
  using assms
proof (induction "is" arbitrary: st)
  case Nil
  then show ?case by simp
next
  case (Cons i "is")
  let ?k = "Uint32 (IntToIP E d)"
  let ?hit1 = "\<exists>name \<in> set names. Contains name (suffixes ! i)"
  let ?hit2 = "\<exists>j \<in> set is. \<exists>name \<in> set names. Contains name (suffixes ! j)"
  from Cons.prems have i: "i < length suffixes" by simp
  from match_names_ok [OF i Cons.prems(2) Cons.prems(3), where names = names] obtain st1 where
    s1: "match_names E suffixes i d names st = Inr st1" and
    h1: "?hit1 \<longrightarrow> allow_map st1 = (allow_map st)(?k \<mapsto> 1)" and
    m1: "\<not> ?hit1 \<longrightarrow> allow_map st1 = allow_map st"
    by blast
  have room1: "allow_map st1 ?k \<noteq> None \<or> card (dom (allow_map st1)) < allow_max_entries E"
    using h1 m1 Cons.prems(3) by (cases ?hit1) auto
  from Cons.prems(1) have rest: "\<forall>i \<in> set is. i < length suffixes" by simp
  from Cons.IH [OF rest Cons.prems(2) room1] obtain st' where
    s2: "match_hosts E suffixes is d names st1 = Inr st'" and
    h2: "?hit2 \<longrightarrow> allow_map st' = (allow_map st1)(?k \<mapsto> 1)" and
    m2: "\<not> ?hit2 \<longrightarrow> allow_map st' = allow_map st1"
    by blast
  have run: "match_hosts E suffixes (i # is) d names st = Inr st'"
    using s1 s2 by simp
  show ?case
  proof (intro exI conjI impI)
    show "match_hosts E suffixes (i # is) d names st = Inr st'" by (fact run)
    show "allow_map st' = (allow_map st)(?k \<mapsto> 1)"
      if "\<exists>j \<in> set (i # is). \<exists>name \<in> set names. Contains name (suffixes ! j)"
    proof -
      from that have "?hit1 \<or> ?hit2" by simp
      then show ?thesis using h1 m1 h2 m2 by (cases ?hit1; cases ?hit2) auto
    qed
    show "allow_map st' = allow_map st"
      if "\<not> (\<exists>j \<in> set (i # is). \<exists>name \<in> set names. Contains name (suffixes ! j))"
    proof -
      from that have "\<not> ?hit1" "\<not> ?hit2" by simp_all
      then show ?thesis using m1 m2 by simp
    qed
  qed
qed

lemma match_names_dom_mono:
  "match_names E suffixes i d names st = Inr st' \<Longrightarrow> dom (allow_map st) \<subseteq> dom (allow_map st')"
proof (induction names arbitrary: st)
  case Nil
  then show ?case by simp
next
  case (Cons name names)
  show ?case
  proof (cases "Contains name (suffixes ! i)")
    case False
    with Cons.prems have "match_names E suffixes i d names st = Inr st'"
      by (simp split: if_splits)
    then show ?thesis by (rule Cons.IH)
  next
    case True
    with Cons.prems obtain m where
      put: "Map_Put (allow_max_entries E) (allow_map st) (KeyIP (IntToIP E d)) 1 = Inr m" and
      rest: "match_names E suffixes i d names
               (act (Log (Log_add (IntToIP E d))) (st\<lparr> allow_map := m \<rparr>)) = Inr st'"
      by (auto split: if_splits sum.splits)
    from Cons.IH [OF rest] have "dom m \<subseteq> dom (allow_map st')" by (simp add: act_def)
    with Map_Put_dom_mono [OF put] show ?thesis by blast
  qed
qed

lemma match_hosts_dom_mono:
  "match_hosts E suffixes is d names st = Inr st' \<Longrightarrow> dom (allow_map st) \<subseteq> dom (allow_map st')"
proof (induction "is" arbitrary: st)
  case Nil
  then show ?case by simp
next
  case (Cons i "is")
  from Cons.prems obtain st1 where
    a: "match_names E suffixes i d names st = Inr st1" and
    b: "match_hosts E suffixes is d names st1 = Inr st'"
    by (auto split: sum.splits)
  from match_names_dom_mono [OF a] Cons.IH [OF b] show ?case by blast
qed

lemma handle_sample_dom_mono:
  assumes "handle_sample E n raw st = Inr st'"
  shows "dom (allow_map st) \<subseteq> dom (allow_map st')"
proof (cases "binary_Read raw")
  case (Inl err)
  with assms show ?thesis by (auto simp: handle_sample_def act_def)
next
  case (Inr event)
  obtain names err where l: "LookupAddr E (IntToIP E (Daddr event)) = (names, err)"
    by (cases "LookupAddr E (IntToIP E (Daddr event))")
  from assms Inr l obtain st1 where
    "match_hosts E allowedHosts [0..<n] (Daddr event)
        (if err then names @ [''.''] else names) st = Inr st1"
    and "allow_map st' = allow_map st1"
    by (auto simp: handle_sample_def act_def Let_def split: sum.splits)
  with match_hosts_dom_mono show ?thesis by metis
qed

lemma event_loop_dom_mono:
  "dom (allow_map st) \<subseteq> dom (allow_map (state_of (event_loop E n reads st)))"
proof (induction reads arbitrary: st)
  case Nil
  then show ?case by simp
next
  case (Cons r rs)
  show ?case
  proof (cases r)
    case ErrClosed
    then show ?thesis by (simp add: act_def)
  next
    case ReadError
    let ?st1 = "act (Log Log_read_error) (act Call_Read st)"
    show ?thesis
    proof (cases "handle_sample E n [] ?st1")
      case (Inl s)
      with ReadError show ?thesis by (simp add: act_def)
    next
      case (Inr st2)
      from handle_sample_dom_mono [OF Inr] have "dom (allow_map st) \<subseteq> dom (allow_map st2)"
        by (simp add: act_def)
      with Cons.IH [of st2] Inr ReadError show ?thesis by auto
    qed
  next
    case (Record raw)
    let ?st1 = "act Call_Read st"
    show ?thesis
    proof (cases "handle_sample E n raw ?st1")
      case (Inl s)
      with Record show ?thesis by (simp add: act_def)
    next
      case (Inr st2)
      from handle_sample_dom_mono [OF Inr] have "dom (allow_map st) \<subseteq> dom (allow_map st2)"
        by (simp add: act_def)
      with Cons.IH [of st2] Inr Record show ?thesis by auto
    qed
  qed
qed

lemma binary_Read_short:
  "length raw < IP4Event_size \<Longrightarrow> binary_Read raw = Inl (if raw = [] then EOF else ErrUnexpectedEOF)"
  by (simp add: binary_Read_def)

lemma binary_Read_prefix:
  "IP4Event_size \<le> length raw \<Longrightarrow> binary_Read raw = binary_Read (take IP4Event_size raw)"
  by (simp add: binary_Read_def IP4Event_size_def take_drop min_def)

lemma binary_Read_long:
  "IP4Event_size \<le> length raw \<Longrightarrow> \<exists>event. binary_Read raw = Inr event"
  by (simp add: binary_Read_def)

lemma handle_sample_short:
  "length raw < IP4Event_size \<Longrightarrow>
   handle_sample E n raw st
     = Inr (act (Log (Log_parse_error (if raw = [] then EOF else ErrUnexpectedEOF))) st)"
  by (simp add: handle_sample_def binary_Read_short)

lemma binary_Read_spec_encode:
  fixes e :: IP4Event
  assumes "length (Task e) = 16"
  shows "binary_Read (spec_encode_IP4Event e) = Inr e"
proof -
  have len: "\<not> length (spec_encode_IP4Event e) < IP4Event_size"
    using assms by (simp add: length_spec_encode IP4Event_size_def)
  have f1: "take 8 (spec_encode_IP4Event e) = PutUint64 (TsUs e)"
    by (simp add: spec_encode_IP4Event_def)
  have f2: "take 4 (drop 8 (spec_encode_IP4Event e)) = PutUint32 (Pid e)"
    by (simp add: spec_encode_IP4Event_def)
  have f3: "take 2 (drop 12 (spec_encode_IP4Event e)) = PutUint16 (Af e)"
    by (simp add: spec_encode_IP4Event_def)
  have f4: "take 16 (drop 14 (spec_encode_IP4Event e)) = Task e"
    using assms by (simp add: spec_encode_IP4Event_def)
  have f5: "take 4 (drop 30 (spec_encode_IP4Event e)) = PutUint32 (Daddr e)"
    using assms by (simp add: spec_encode_IP4Event_def)
  have f6: "take 2 (drop 34 (spec_encode_IP4Event e)) = PutUint16 (Dport e)"
    using assms by (simp add: spec_encode_IP4Event_def)
  show ?thesis
    unfolding binary_Read_def
    by (simp only: len if_False f1 f2 f3 f4 f5 f6
        Uint16_PutUint16 Uint32_PutUint32 Uint64_PutUint64) simp
qed

section \<open>The example, evaluated\<close>

lemma example_event_bytes: "IntToIP example_env (Daddr example_event) = [140, 82, 121, 4]"
  by (simp add: example_env_def example_event_def PutUint32_def)

lemma example_key: "Uint32 [140, 82, 121, 4] = 0x0479528C"
  by (simp add: Uint32_def)

lemma example_Contains: "Contains ''lb-140-82-121-4-fra.github.com.'' ''.github.com''"
  by simp

lemma example_decode: "binary_Read (spec_encode_IP4Event example_event) = Inr example_event"
  by (rule binary_Read_spec_encode) (simp add: example_event_def)

lemma example_decode_padded:
  "binary_Read (spec_encode_IP4Event example_event @ [0, 0, 0, 0]) = Inr example_event"
proof -
  have "take IP4Event_size (spec_encode_IP4Event example_event @ [0, 0, 0, 0])
        = spec_encode_IP4Event example_event"
    by (simp add: length_spec_encode IP4Event_size_def example_event_def)
  moreover have "IP4Event_size \<le> length (spec_encode_IP4Event example_event @ [0, 0, 0, 0])"
    by (simp add: length_spec_encode IP4Event_size_def example_event_def)
  ultimately show ?thesis
    using binary_Read_prefix [of "spec_encode_IP4Event example_event @ [0, 0, 0, 0]"]
    by (simp add: example_decode)
qed

section \<open>What the loop and the setup leave alone\<close>

lemma act_frame [simp]:
  "Collection (act a st) = Collection st"
  "Spec (act a st) = Spec st"
  "deferred (act a st) = deferred st"
  "mode_map (act a st) = mode_map st"
  "allow_map (act a st) = allow_map st"
  "trace (act a st) = trace st @ [a]"
  by (simp_all add: act_def)

lemma defer_call_frame [simp]:
  "Collection (defer_call d st) = Collection st"
  "Spec (defer_call d st) = Spec st"
  "deferred (defer_call d st) = d # deferred st"
  "mode_map (defer_call d st) = mode_map st"
  "allow_map (defer_call d st) = allow_map st"
  "trace (defer_call d st) = trace st"
  by (simp_all add: defer_call_def)

lemma match_names_frame:
  "match_names E suffixes i d names st = Inr st' \<Longrightarrow>
   Collection st' = Collection st \<and> deferred st' = deferred st"
proof (induction names arbitrary: st)
  case Nil
  then show ?case by simp
next
  case (Cons name names)
  show ?case
  proof (cases "Contains name (suffixes ! i)")
    case False
    with Cons.prems have "match_names E suffixes i d names st = Inr st'"
      by (simp split: if_splits)
    then show ?thesis by (rule Cons.IH)
  next
    case True
    with Cons.prems obtain m where
      rest: "match_names E suffixes i d names
               (act (Log (Log_add (IntToIP E d))) (st\<lparr> allow_map := m \<rparr>)) = Inr st'"
      by (auto split: if_splits sum.splits)
    from Cons.IH [OF rest] show ?thesis by simp
  qed
qed

lemma match_hosts_frame:
  "match_hosts E suffixes is d names st = Inr st' \<Longrightarrow>
   Collection st' = Collection st \<and> deferred st' = deferred st"
proof (induction "is" arbitrary: st)
  case Nil
  then show ?case by simp
next
  case (Cons i "is")
  from Cons.prems obtain st1 where
    a: "match_names E suffixes i d names st = Inr st1" and
    b: "match_hosts E suffixes is d names st1 = Inr st'"
    by (auto split: sum.splits)
  from match_names_frame [OF a] Cons.IH [OF b] show ?case by simp
qed

lemma handle_sample_frame:
  assumes "handle_sample E n raw st = Inr st'"
  shows "Collection st' = Collection st \<and> deferred st' = deferred st"
proof (cases "binary_Read raw")
  case (Inl err)
  with assms show ?thesis by (auto simp: handle_sample_def)
next
  case (Inr event)
  obtain names err where l: "LookupAddr E (IntToIP E (Daddr event)) = (names, err)"
    by (cases "LookupAddr E (IntToIP E (Daddr event))")
  from assms Inr l obtain st1 where
    "match_hosts E allowedHosts [0..<n] (Daddr event)
        (if err then names @ [''.''] else names) st = Inr st1"
    and "Collection st' = Collection st1" "deferred st' = deferred st1"
    by (auto simp: handle_sample_def Let_def split: sum.splits)
  with match_hosts_frame show ?thesis by metis
qed

lemma event_loop_frame:
  "Collection (state_of (event_loop E n reads st)) = Collection st
   \<and> deferred (state_of (event_loop E n reads st)) = deferred st"
proof (induction reads arbitrary: st)
  case Nil
  then show ?case by simp
next
  case (Cons r rs)
  show ?case
  proof (cases r)
    case ErrClosed
    then show ?thesis by simp
  next
    case ReadError
    let ?st1 = "act (Log Log_read_error) (act Call_Read st)"
    show ?thesis
    proof (cases "handle_sample E n [] ?st1")
      case (Inl s)
      with ReadError show ?thesis by simp
    next
      case (Inr st2)
      from handle_sample_frame [OF Inr] Cons.IH [of st2] Inr ReadError show ?thesis by simp
    qed
  next
    case (Record raw)
    let ?st1 = "act Call_Read st"
    show ?thesis
    proof (cases "handle_sample E n raw ?st1")
      case (Inl s)
      with Record show ?thesis by simp
    next
      case (Inr st2)
      from handle_sample_frame [OF Inr] Cons.IH [of st2] Inr Record show ?thesis by simp
    qed
  qed
qed

lemma run_deferred_loaded:
  "Collection st \<noteq> None \<Longrightarrow> fst (run_deferred ds r st) = r"
  by (induction ds r st rule: run_deferred.induct) (auto split: option.splits)

lemma run_deferred_allow_map:
  "allow_map (snd (run_deferred ds r st)) = allow_map st"
  by (induction ds r st rule: run_deferred.induct) (auto split: option.splits)

lemma link_programs_frame:
  "link_programs E ps st = Inr st' \<Longrightarrow>
   Collection st' = Collection st \<and> allow_map st' = allow_map st"
proof (induction ps arbitrary: st)
  case Nil
  then show ?case by simp
next
  case (Cons p ps)
  from Cons.prems obtain st1 where
    "link_programs E ps st1 = Inr st'" "Collection st1 = Collection st"
    "allow_map st1 = allow_map st"
    by (cases "ProgType p") (auto split: if_splits)
  with Cons.IH [of st1] show ?case by simp
qed

lemma link_programs_frame_Inl:
  "link_programs E ps st = Inl (r, st') \<Longrightarrow> allow_map st' = allow_map st"
proof (induction ps arbitrary: st)
  case Nil
  then show ?case by simp
next
  case (Cons p ps)
  show ?case
  proof (cases "allow_map st' = allow_map st")
    case True
    then show ?thesis .
  next
    case False
    with Cons.prems obtain st1 where
      "link_programs E ps st1 = Inl (r, st')" "allow_map st1 = allow_map st"
      by (cases "ProgType p") (auto split: if_splits)
    with Cons.IH [of st1] show ?thesis by simp
  qed
qed

lemma Run_setup_loaded:
  assumes "Run_setup E mode hosts = Inr st"
  shows "Collection st \<noteq> None"
proof -
  from assms obtain s1 s2 s3 s4 s5 s6 s7 where
    "check_root E (act Call_NewReporter (defer_call Defer_clean init_state)) = Inr s1"
    "remove_memlock E s1 = Inr s2" and
    l: "load E s2 = Inr s3" and
    k: "link_all E s3 = Inr s4" and
    m: "set_mode E mode s4 = Inr s5" and
    sd: "seed E hosts s5 = Inr s6" and
    r1: "open_reader E ''ipv4_events'' s6 = Inr s7" and
    r2: "open_reader E ''ipv4_closed_events'' s7 = Inr st"
    by (auto simp: Run_setup_def thenStep_def split: sum.splits)
  from l have "Collection s3 \<noteq> None"
    by (auto simp: load_def split: option.splits if_splits)
  with k have "Collection s4 \<noteq> None"
    by (auto simp: link_all_def dest: link_programs_frame)
  with m have "Collection s5 \<noteq> None"
    by (auto simp: set_mode_def split: sum.splits)
  with sd have "Collection s6 \<noteq> None"
    by (auto simp: seed_def split: sum.splits stop.splits)
  with r1 have "Collection s7 \<noteq> None"
    by (auto simp: open_reader_def split: if_splits)
  with r2 show ?thesis
    by (auto simp: open_reader_def split: if_splits)
qed

lemma main_loop_never_error: "fst (main_loop E n reads st) \<noteq> Returns (Some e)"
  by (auto simp: main_loop_def split: loop_end.splits stop.splits)

lemma event_loop_errors_then_closed:
  "\<exists>st'. event_loop E n (replicate k ReadError @ ErrClosed # rs) st = At_EXIT st'
     \<and> allow_map st' = allow_map st \<and> Collection st' = Collection st
     \<and> deferred st' = deferred st"
proof (induction k arbitrary: st)
  case 0
  then show ?case by simp
next
  case (Suc k)
  let ?st1 = "act (Log (Log_parse_error EOF)) (act (Log Log_read_error) (act Call_Read st))"
  have "handle_sample E n [] (act (Log Log_read_error) (act Call_Read st)) = Inr ?st1"
    by (simp add: handle_sample_short IP4Event_size_def)
  then have "event_loop E n (replicate (Suc k) ReadError @ ErrClosed # rs) st
        = event_loop E n (replicate k ReadError @ ErrClosed # rs) ?st1"
    by simp
  with Suc [of ?st1] show ?case by simp
qed

lemma example_handle_padded:
  "handle_sample example_env (length allowedHosts)
     (spec_encode_IP4Event example_event @ [0, 0, 0, 0]) init_state
   = Inr (act (Log (Log_event 4242 (replicate 16 0x61) [140, 82, 121, 4]
                      [''lb-140-82-121-4-fra.github.com.''] 443))
           (act (Log (Log_add [140, 82, 121, 4]))
              (init_state\<lparr> allow_map := Map.empty(0x0479528C \<mapsto> 1) \<rparr>)))"
proof -
  have l: "LookupAddr example_env [140, 82, 121, 4]
             = ([''lb-140-82-121-4-fra.github.com.''], False)"
    by (simp add: example_env_def example_LookupAddr_def)
  have c: "allow_max_entries example_env = 256" by (simp add: example_env_def)
  have i: "allow_map init_state = Map.empty" by (simp add: init_state_def)
  have f: "Pid example_event = 4242" "Task example_event = replicate 16 0x61"
    "Dport example_event = 443"
    by (simp_all add: example_event_def)
  have n0: "\<not> Contains ''lb-140-82-121-4-fra.github.com.'' ''.kondukto.io''" by simp
  have put: "Map_Put 256 Map.empty (KeyIP [140, 82, 121, 4]) 1 = Inr (Map.empty(0x0479528C \<mapsto> 1))"
    by (simp add: Map_Put_def marshalKey_def example_key)
  have m: "match_hosts example_env allowedHosts [0, 1] (Daddr example_event)
             [''lb-140-82-121-4-fra.github.com.''] init_state
           = Inr (act (Log (Log_add [140, 82, 121, 4]))
                   (init_state\<lparr> allow_map := Map.empty(0x0479528C \<mapsto> 1) \<rparr>))"
    using example_Contains n0
    by (simp add: allowedHosts_def example_event_bytes c i put)
  have u: "[0..<length allowedHosts] = [0, 1]"
    by (simp add: allowedHosts_def upt_rec)
  show ?thesis
    by (simp only: handle_sample_def example_decode_padded sum.case Let_def
        example_event_bytes l prod.case if_False u m f)
qed

section \<open>Claims\<close>

text \<open>
  C7. Round trip of the record layout: an \<open>IP4Event\<close> written with the fixed
  little-endian layout of the specification (timestamp u64, pid u32, address family u16,
  16 bytes of task name, destination address u32, destination port u16, no padding) and
  read back by \<open>binary_Read\<close> is the same event. The task name of a Go value is a
  16-byte array, which is the hypothesis.
\<close>

theorem C7_encode_decode_roundtrip:
  fixes e :: IP4Event
  assumes "length (Task e) = 16"
  shows "binary_Read (spec_encode_IP4Event e) = Inr e"
  using assms by (rule binary_Read_spec_encode)

theorem C7_encode_decode_roundtrip_witness:
  "length (Task \<lparr> TsUs = 7, Pid = 4242, Af = 2, Task = replicate 16 0x61,
                   Daddr = 0x0100007F, Dport = 443 \<rparr>) = 16
   \<and> binary_Read (spec_encode_IP4Event
        \<lparr> TsUs = 7, Pid = 4242, Af = 2, Task = replicate 16 0x61,
          Daddr = 0x0100007F, Dport = 443 \<rparr>)
     = Inr \<lparr> TsUs = 7, Pid = 4242, Af = 2, Task = replicate 16 0x61,
             Daddr = 0x0100007F, Dport = 443 \<rparr>"
  using C7_encode_decode_roundtrip
    [of "\<lparr> TsUs = 7, Pid = 4242, Af = 2, Task = replicate 16 0x61,
           Daddr = 0x0100007F, Dport = 443 \<rparr>"]
  by simp

text \<open>
  C1. Runtime growth of the allow map. Take a record that decodes to \<open>event\<close>, whose
  destination \<open>utils.IntToIP(event.Daddr)\<close> is a 4-byte address, and for which one of
  the resolved names contains one of the two fixed suffixes. When the kernel map
  accepts the write (the key is already there, or the map is not full), the iteration
  completes, and afterwards the map holds the destination under the little-endian
  \<open>uint32\<close> of its four bytes, with the marker 1: exactly the map that the seeding loop
  gives for the same address. Handling the same record once more completes as well and
  leaves the map as it is.
\<close>

theorem C1_runtime_growth:
  assumes dec: "binary_Read raw = Inr event"
    and ip: "length (IntToIP E (Daddr event)) = 4"
    and res: "LookupAddr E (IntToIP E (Daddr event)) = (names, err)"
    and hit: "\<exists>name \<in> set (if err then names @ [''.''] else names).
                \<exists>suffix \<in> set allowedHosts. Contains name suffix"
    and room: "allow_map st (Uint32 (IntToIP E (Daddr event))) \<noteq> None
                \<or> card (dom (allow_map st)) < allow_max_entries E"
  shows "\<exists>st'. handle_sample E (length allowedHosts) raw st = Inr st'
       \<and> allow_map st' = (allow_map st)(Uint32 (IntToIP E (Daddr event)) \<mapsto> 1)
       \<and> seed_allow (allow_max_entries E) [IntToIP E (Daddr event)] (allow_map st)
           = Inr (allow_map st')
       \<and> (\<exists>st''. handle_sample E (length allowedHosts) raw st' = Inr st''
             \<and> allow_map st'' = allow_map st')"
proof -
  let ?k = "Uint32 (IntToIP E (Daddr event))"
  let ?dom = "if err then names @ [''.''] else names"
  let ?is = "[0..<length allowedHosts]"
  have idx: "\<forall>i \<in> set ?is. i < length allowedHosts" by simp
  from hit have hit': "\<exists>i \<in> set ?is. \<exists>name \<in> set ?dom. Contains name (allowedHosts ! i)"
    by (metis atLeast0LessThan in_set_conv_nth lessThan_iff set_upt)
  have step: "\<exists>s'. handle_sample E (length allowedHosts) raw s = Inr s'
              \<and> allow_map s' = (allow_map s)(?k \<mapsto> 1)"
    if r: "allow_map s ?k \<noteq> None \<or> card (dom (allow_map s)) < allow_max_entries E" for s
  proof -
    from match_hosts_ok [OF idx ip r, where names = ?dom] hit' obtain s1 where
      m: "match_hosts E allowedHosts ?is (Daddr event) ?dom s = Inr s1" and
      a: "allow_map s1 = (allow_map s)(?k \<mapsto> 1)"
      by blast
    let ?s' = "act (Log (Log_event (Pid event) (Task event) (IntToIP E (Daddr event)) ?dom
                 (Dport event))) s1"
    have "handle_sample E (length allowedHosts) raw s = Inr ?s'"
      using dec res m by (simp add: handle_sample_def)
    moreover have "allow_map ?s' = (allow_map s)(?k \<mapsto> 1)"
      using a by (simp add: act_def)
    ultimately show ?thesis by blast
  qed
  from step [OF room] obtain st' where
    first: "handle_sample E (length allowedHosts) raw st = Inr st'" and
    am: "allow_map st' = (allow_map st)(?k \<mapsto> 1)"
    by blast
  from am have present: "allow_map st' ?k \<noteq> None" by simp
  from step [of st'] present obtain st'' where
    second: "handle_sample E (length allowedHosts) raw st' = Inr st''" and
    am2: "allow_map st'' = (allow_map st')(?k \<mapsto> 1)"
    by blast
  from am am2 have same: "allow_map st'' = allow_map st'" by simp
  have seeded: "seed_allow (allow_max_entries E) [IntToIP E (Daddr event)] (allow_map st)
                 = Inr (allow_map st')"
    using ip room am by (simp add: LittleEndian_Uint32_def Map_Put_def marshalKey_def)
  show ?thesis
  proof (intro exI conjI)
    show "handle_sample E (length allowedHosts) raw st = Inr st'" by (fact first)
    show "allow_map st' = (allow_map st)(?k \<mapsto> 1)" by (fact am)
    show "seed_allow (allow_max_entries E) [IntToIP E (Daddr event)] (allow_map st)
           = Inr (allow_map st')" by (fact seeded)
    show "handle_sample E (length allowedHosts) raw st' = Inr st''" by (fact second)
    show "allow_map st'' = allow_map st'" by (fact same)
  qed
qed

theorem C1_runtime_growth_witness:
  "\<exists>st'. handle_sample example_env (length allowedHosts)
            (spec_encode_IP4Event example_event) init_state = Inr st'
       \<and> allow_map st' = Map.empty(0x0479528C \<mapsto> 1)
       \<and> seed_allow 256 [[140, 82, 121, 4]] Map.empty = Inr (allow_map st')
       \<and> (\<exists>st''. handle_sample example_env (length allowedHosts)
                    (spec_encode_IP4Event example_event) st' = Inr st''
             \<and> allow_map st'' = allow_map st')"
proof -
  have dec: "binary_Read (spec_encode_IP4Event example_event) = Inr example_event"
    by (fact example_decode)
  have ip: "length (IntToIP example_env (Daddr example_event)) = 4"
    by (simp add: example_event_bytes)
  have res: "LookupAddr example_env (IntToIP example_env (Daddr example_event))
             = ([''lb-140-82-121-4-fra.github.com.''], False)"
    by (simp add: example_event_bytes) (simp add: example_env_def example_LookupAddr_def)
  have hit: "\<exists>name \<in> set (if False then [''lb-140-82-121-4-fra.github.com.''] @ [''.'']
                            else [''lb-140-82-121-4-fra.github.com.'']).
               \<exists>suffix \<in> set allowedHosts. Contains name suffix"
    using example_Contains by (simp add: allowedHosts_def)
  have room: "allow_map init_state (Uint32 (IntToIP example_env (Daddr example_event))) \<noteq> None
               \<or> card (dom (allow_map init_state)) < allow_max_entries example_env"
    by (simp add: init_state_def example_env_def)
  have k: "Uint32 (IntToIP example_env (Daddr example_event)) = 0x0479528C"
    by (simp add: example_event_bytes example_key)
  have a: "allow_map init_state = Map.empty" by (simp add: init_state_def)
  have c: "allow_max_entries example_env = 256" by (simp add: example_env_def)
  show ?thesis
    using C1_runtime_growth [OF dec ip res hit room]
    by (simp only: k a c example_event_bytes example_key)
qed

text \<open>
  C3. A record that is too short. For every raw sample with fewer bytes than the 36 of
  the layout, decoding fails (\<open>io.EOF\<close> for an empty sample, \<open>io.ErrUnexpectedEOF\<close>
  otherwise), the failure is logged, the allow map is not written, and the loop goes on
  with the next read. A sample with 36 bytes or more decodes: the event is read from
  its first 36 bytes and the rest is ignored.
\<close>

theorem C3_short_record_skipped:
  "(length raw < IP4Event_size \<longrightarrow>
      binary_Read raw = Inl (if raw = [] then EOF else ErrUnexpectedEOF)
      \<and> event_loop E n (Record raw # rs) st
          = event_loop E n rs
              (act (Log (Log_parse_error (if raw = [] then EOF else ErrUnexpectedEOF)))
                 (act Call_Read st))
      \<and> allow_map (act (Log (Log_parse_error (if raw = [] then EOF else ErrUnexpectedEOF)))
                     (act Call_Read st)) = allow_map st)
   \<and> (IP4Event_size \<le> length raw \<longrightarrow>
        binary_Read raw = binary_Read (take IP4Event_size raw)
        \<and> (\<exists>event. binary_Read raw = Inr event))"
proof (intro conjI impI)
  assume short: "length raw < IP4Event_size"
  then show "binary_Read raw = Inl (if raw = [] then EOF else ErrUnexpectedEOF)"
    by (rule binary_Read_short)
  from short have "handle_sample E n raw (act Call_Read st)
      = Inr (act (Log (Log_parse_error (if raw = [] then EOF else ErrUnexpectedEOF)))
               (act Call_Read st))"
    by (rule handle_sample_short)
  then show "event_loop E n (Record raw # rs) st
      = event_loop E n rs
          (act (Log (Log_parse_error (if raw = [] then EOF else ErrUnexpectedEOF)))
             (act Call_Read st))"
    by simp
  show "allow_map (act (Log (Log_parse_error (if raw = [] then EOF else ErrUnexpectedEOF)))
                     (act Call_Read st)) = allow_map st"
    by simp
next
  assume long: "IP4Event_size \<le> length raw"
  then show "binary_Read raw = binary_Read (take IP4Event_size raw)"
    by (rule binary_Read_prefix)
  from long show "\<exists>event. binary_Read raw = Inr event"
    by (rule binary_Read_long)
qed

theorem C3_short_record_skipped_witness:
  "length [1, 2, 3 :: byte] < IP4Event_size
   \<and> binary_Read [1, 2, 3] = Inl ErrUnexpectedEOF
   \<and> event_loop example_env 2 [Record [1, 2, 3]] init_state
       = Blocked (act (Log (Log_parse_error ErrUnexpectedEOF)) (act Call_Read init_state))
   \<and> IP4Event_size \<le> length (spec_encode_IP4Event example_event @ [0, 0, 0, 0])
   \<and> binary_Read (spec_encode_IP4Event example_event @ [0, 0, 0, 0]) = Inr example_event"
proof -
  have a: "length [1, 2, 3 :: byte] < IP4Event_size" by (simp add: IP4Event_size_def)
  have b: "IP4Event_size \<le> length (spec_encode_IP4Event example_event @ [0, 0, 0, 0])"
    by (simp add: length_spec_encode IP4Event_size_def example_event_def)
  show ?thesis
    using C3_short_record_skipped [of "[1, 2, 3]" example_env 2 "[]" init_state] a
      C3_short_record_skipped [of "spec_encode_IP4Event example_event @ [0, 0, 0, 0]"] b
    by (simp add: example_decode_padded)
qed

text \<open>
  C3, as first stated, asked that a sample longer than the layout be refused as well.
  The 40-byte sample made of the example event and four bytes of padding decodes to
  that event, and handling it writes the destination into the allow map.
\<close>

theorem C3_longer_record_counterexample:
  "length (spec_encode_IP4Event example_event @ [0, 0, 0, 0]) = 40
   \<and> IP4Event_size = 36
   \<and> binary_Read (spec_encode_IP4Event example_event @ [0, 0, 0, 0]) = Inr example_event
   \<and> (case handle_sample example_env (length allowedHosts)
              (spec_encode_IP4Event example_event @ [0, 0, 0, 0]) init_state of
         Inl s \<Rightarrow> None
       | Inr st' \<Rightarrow> allow_map st' 0x0479528C) = Some 1"
proof (intro conjI)
  show "length (spec_encode_IP4Event example_event @ [0, 0, 0, 0]) = 40"
    by (simp add: length_spec_encode example_event_def)
  show "IP4Event_size = 36" by (simp add: IP4Event_size_def)
  show "binary_Read (spec_encode_IP4Event example_event @ [0, 0, 0, 0]) = Inr example_event"
    by (fact example_decode_padded)
  show "(case handle_sample example_env (length allowedHosts)
              (spec_encode_IP4Event example_event @ [0, 0, 0, 0]) init_state of
         Inl s \<Rightarrow> None
       | Inr st' \<Rightarrow> allow_map st' 0x0479528C) = Some 1"
    by (simp only: example_handle_padded sum.case) simp
qed

end
